theory Spec2Isabelle
  imports Complex_Main "HOL-Library.Sublist" "HOL-Library.AList"
begin

section \<open>JavaScript primitives used by the viewer\<close>

text \<open>
  \<^verbatim>\<open>parseInt(s, 10)\<close>: leading white space is skipped, one sign is read, then the
  longest run of decimal digits; with no digit the result is \<^verbatim>\<open>NaN\<close>, here \<open>None\<close>.
  Whatever follows the digits is ignored (\<^verbatim>\<open>parseInt("12abc", 10)\<close> is 12).
  Characters are bytes here, so only the ASCII white space is skipped, and the
  result is an unbounded integer where JavaScript rounds to a double beyond \<open>2^53\<close>.
\<close>

definition isWhiteSpace :: "char \<Rightarrow> bool" where
  "isWhiteSpace c = (c \<in> set [CHR 0x09, CHR 0x0A, CHR 0x0B, CHR 0x0C, CHR 0x0D, CHR 0x20])"

definition isDigit :: "char \<Rightarrow> bool" where
  "isDigit c = (48 \<le> (of_char c :: nat) \<and> (of_char c :: nat) \<le> 57)"

definition digitsValue :: "string \<Rightarrow> int" where
  "digitsValue ds = foldl (\<lambda>acc c. 10 * acc + (int (of_char c) - 48)) 0 ds"

definition parseInt10 :: "string \<Rightarrow> int option" where
  "parseInt10 s =
     (let t = dropWhile isWhiteSpace s;
          sign = (case t of c # r \<Rightarrow> if c = CHR ''-'' then - 1 else 1 | [] \<Rightarrow> (1 :: int));
          u = (case t of c # r \<Rightarrow> if c = CHR ''-'' \<or> c = CHR ''+'' then r else t | [] \<Rightarrow> []);
          z = takeWhile isDigit u
      in if z = [] then None else Some (sign * digitsValue z))"

text \<open>
  A value that is \<^verbatim>\<open>null\<close> or a number, where the source compares it with a
  number: \<^verbatim>\<open>null\<close> converts to 0.
\<close>

definition toNumber :: "int option \<Rightarrow> int" where
  "toNumber v = (case v of None \<Rightarrow> 0 | Some n \<Rightarrow> n)"

section \<open>The viewer's state and the page it renders into\<close>

text \<open>
  The \<^verbatim>\<open>useState\<close> cells of \<^verbatim>\<open>AdvancedPDFViewer\<close>, under their own names.
  \<open>renderedPages\<close> is the object \<^verbatim>\<open>{ [pageNumber]: true }\<close>, kept as an association
  list whose keys are the object's own keys. \<open>zoom\<close> is a float in the source; no
  operation below reads or writes it.
\<close>

record viewer =
  numPages :: "int option"
  zoom :: real
  renderedPages :: "(int \<times> bool) list"
  userPageInput :: string
  currentPage :: "int option"
  pageOffset :: int
  isEditingOffset :: bool
  offsetInput :: string

definition initialViewer :: viewer where
  "initialViewer =
     \<lparr> numPages = None, zoom = 12 / 10, renderedPages = [], userPageInput = [],
       currentPage = None, pageOffset = 0, isEditingOffset = False, offsetInput = ''0'' \<rparr>"

text \<open>
  What the handlers see of the document: for a physical page \<open>n\<close>, \<open>pages d n\<close> is
  \<open>None\<close> when \<^verbatim>\<open>document.getElementById("page_" + n)\<close> finds nothing, and otherwise
  the \<^verbatim>\<open>.textLayer span\<close> elements under that element, in document order. Each span
  has its text and its class list. \<open>scrolled\<close> records the \<^verbatim>\<open>scrollIntoView\<close>
  requests, oldest first.
\<close>

record span =
  textContent :: string
  classList :: "string list"

record dom =
  pages :: "int \<rightharpoonup> span list"
  scrolled :: "int list"

section \<open>Navigation\<close>

text \<open>
  \<^verbatim>\<open>scrollToPage\<close>: the element is looked up; only when it exists is it scrolled to and
  \<open>currentPage\<close> set.
\<close>

definition scrollToPage :: "int \<Rightarrow> viewer \<times> dom \<Rightarrow> viewer \<times> dom" where
  "scrollToPage actualPageNum w =
     (case pages (snd w) actualPageNum of
        None \<Rightarrow> w
      | Some el \<Rightarrow>
          ((fst w)\<lparr>currentPage := Some actualPageNum\<rparr>,
           (snd w)\<lparr>scrolled := scrolled (snd w) @ [actualPageNum]\<rparr>))"

text \<open>
  \<^verbatim>\<open>handlePageJump\<close>: \<^verbatim>\<open>actual <= numPages\<close> with \<open>numPages\<close> still \<^verbatim>\<open>null\<close>
  compares with 0.
\<close>

definition handlePageJump :: "viewer \<times> dom \<Rightarrow> viewer \<times> dom" where
  "handlePageJump w =
     (case parseInt10 (userPageInput (fst w)) of
        None \<Rightarrow> w
      | Some target \<Rightarrow>
          (let actual = target + pageOffset (fst w) in
           if 1 \<le> actual \<and> actual \<le> toNumber (numPages (fst w))
           then scrollToPage actual w else w))"

text \<open>\<^verbatim>\<open>handleOffsetSave\<close>: the offset is set only when the buffer parses; edit mode ends either way.\<close>

definition handleOffsetSave :: "viewer \<Rightarrow> viewer" where
  "handleOffsetSave st =
     (let st' = (case parseInt10 (offsetInput st) of
                   None \<Rightarrow> st
                 | Some newOffset \<Rightarrow> st\<lparr>pageOffset := newOffset\<rparr>)
      in st'\<lparr>isEditingOffset := False\<rparr>)"

section \<open>Render tracking and readiness\<close>

text \<open>
  \<^verbatim>\<open>onDocumentLoadSuccess\<close> stores the page count. \<^verbatim>\<open>onPageRenderSuccess\<close> copies the
  object and sets the key \<open>pageNumber\<close> to \<^verbatim>\<open>true\<close>: a key already there keeps its
  place, a new key is added.
\<close>

definition onDocumentLoadSuccess :: "int \<Rightarrow> viewer \<Rightarrow> viewer" where
  "onDocumentLoadSuccess n st = st\<lparr>numPages := Some n\<rparr>"

definition onPageRenderSuccess :: "int \<Rightarrow> viewer \<Rightarrow> viewer" where
  "onPageRenderSuccess pageNumber st =
     st\<lparr>renderedPages := AList.update pageNumber True (renderedPages st)\<rparr>"

text \<open>
  \<^verbatim>\<open>isLoaded = numPages && Object.keys(renderedPages).length >= numPages\<close>. The
  value of \<^verbatim>\<open>&&\<close> is its left operand when that is falsy (\<^verbatim>\<open>null\<close>, or the number 0)
  and the comparison's boolean otherwise; \<open>isLoaded\<close> is its truthiness, which is what
  every \<^verbatim>\<open>if\<close> on it reads.
\<close>

datatype jsval = JUndefined | JNull | JNum int | JBool bool

fun truthy :: "jsval \<Rightarrow> bool" where
  "truthy JUndefined = False"
| "truthy JNull = False"
| "truthy (JNum n) = (n \<noteq> 0)"
| "truthy (JBool b) = b"

definition isLoadedVal :: "viewer \<Rightarrow> jsval" where
  "isLoadedVal st =
     (case numPages st of
        None \<Rightarrow> JNull
      | Some n \<Rightarrow>
          if n = 0 then JNum 0
          else JBool (n \<le> int (length (map fst (renderedPages st)))))"

definition isLoaded :: "viewer \<Rightarrow> bool" where
  "isLoaded st = truthy (isLoadedVal st)"

text \<open>The render-complete signals of a list of pages, in the list's order.\<close>

definition recordRendered :: "int list \<Rightarrow> viewer \<Rightarrow> viewer" where
  "recordRendered ps st = foldl (\<lambda>s p. onPageRenderSuccess p s) st ps"


section \<open>Evidence highlighting\<close>

text \<open>
  An evidence entry as \<^verbatim>\<open>getAllEvidences\<close> builds it: \<^verbatim>\<open>{ pageNumber, evidence }\<close>, each
  field copied from the evaluation result, so either may be missing. \<open>pageNumber\<close> is
  a JavaScript value: \<^verbatim>\<open>undefined\<close> when missing, \<^verbatim>\<open>null\<close>, a number or a boolean (a
  page number given as a string is not modelled). \<open>evidence\<close> is a string, or \<open>None\<close>
  when it is \<^verbatim>\<open>undefined\<close> or \<^verbatim>\<open>null\<close>, which \<^verbatim>\<open>?.\<close> treats alike.
\<close>

record evidence_entry =
  pageNumber :: jsval
  evidence :: "string option"

text \<open>
  \<^verbatim>\<open>v + n\<close> for a number \<open>n\<close>: \<^verbatim>\<open>undefined\<close> gives \<^verbatim>\<open>NaN\<close> (here \<open>None\<close>), \<^verbatim>\<open>null\<close>
  counts as 0, \<^verbatim>\<open>false\<close> and \<^verbatim>\<open>true\<close> as 0 and 1.
\<close>

fun jsPlus :: "jsval \<Rightarrow> int \<Rightarrow> int option" where
  "jsPlus JUndefined n = None"
| "jsPlus JNull n = Some n"
| "jsPlus (JNum k) n = Some (k + n)"
| "jsPlus (JBool b) n = Some ((if b then 1 else 0) + n)"

text \<open>
  \<^verbatim>\<open>toLowerCase\<close> is a function of the JavaScript library: it folds every cased letter
  of a string. The definitions below take the fold as their first argument \<open>lower\<close>,
  so what is proved of them for every \<open>lower\<close> holds of \<^verbatim>\<open>toLowerCase\<close> itself. On a text
  of ASCII characters \<^verbatim>\<open>toLowerCase\<close> turns the capitals A to Z into a to z and keeps
  every other character; \<open>toLowerCase_ascii\<close> is that function, and it stands for
  \<open>lower\<close> only where the code is run on a given ASCII input.
\<close>

definition lowerChar_ascii :: "char \<Rightarrow> char" where
  "lowerChar_ascii c =
     (if 65 \<le> (of_char c :: nat) \<and> (of_char c :: nat) \<le> 90
      then char_of ((of_char c :: nat) + 32) else c)"

definition toLowerCase_ascii :: "string \<Rightarrow> string" where
  "toLowerCase_ascii s = map lowerChar_ascii s"

text \<open>\<^verbatim>\<open>hay.includes(needle)\<close>: the needle is looked for at every position of the hay.\<close>

fun includes_str :: "string \<Rightarrow> string \<Rightarrow> bool" where
  "includes_str [] needle = (needle = [])"
| "includes_str (c # cs) needle = (prefix needle (c # cs) \<or> includes_str cs needle)"

text \<open>
  \<^verbatim>\<open>classList.add(t1, \<dots>, tk)\<close>: each token is appended unless the list has it
  already.
\<close>

definition classListAdd :: "string list \<Rightarrow> string list \<Rightarrow> string list" where
  "classListAdd tokens cl = foldl (\<lambda>acc t. if t \<in> set acc then acc else acc @ [t]) cl tokens"

definition highlightClasses :: "string list" where
  "highlightClasses = [''bg-yellow-500'', ''rounded-sm'', ''px-[1px]'', ''opacity-50'']"

text \<open>A span carries the highlight marker when it has all four classes.\<close>

definition marked :: "span \<Rightarrow> bool" where
  "marked sp = list_all (\<lambda>t. t \<in> set (classList sp)) highlightClasses"

text \<open>
  The body of \<^verbatim>\<open>spans.forEach\<close>: a span whose folded text is empty is skipped; otherwise
  every search text that is there, is not empty and includes the span's folded text
  adds the classes.
\<close>

definition highlightSpan :: "(string \<Rightarrow> string) \<Rightarrow> string option list \<Rightarrow> span \<Rightarrow> span" where
  "highlightSpan lower evidenceText sp =
     (let spanText = lower (textContent sp) in
      if spanText = [] then sp
      else foldl (\<lambda>s search.
                    case search of
                      None \<Rightarrow> s
                    | Some t \<Rightarrow>
                        if t \<noteq> [] \<and> includes_str t spanText
                        then s\<lparr>classList := classListAdd highlightClasses (classList s)\<rparr>
                        else s)
                 sp evidenceText)"

text \<open>
  \<^verbatim>\<open>tryHighlight(pageNumber)\<close>, with the fold, the props \<open>targetPage\<close> and \<open>evidences\<close>
  and the viewer state it closes over. \<open>targetPage\<close> is \<^verbatim>\<open>null\<close> or a number and is
  compared with \<^verbatim>\<open>===\<close>.
\<close>

definition tryHighlight ::
  "(string \<Rightarrow> string) \<Rightarrow> int option \<Rightarrow> evidence_entry list \<Rightarrow> viewer \<Rightarrow> int \<Rightarrow> dom \<Rightarrow> dom"
  where
  "tryHighlight lower targetPage evidences st p d =
     (if targetPage \<noteq> Some p then d
      else case pages d p of
        None \<Rightarrow> d
      | Some spans \<Rightarrow>
          (let evidenceText =
                 map (\<lambda>ev. map_option lower (evidence ev))
                   (filter (\<lambda>ev. jsPlus (pageNumber ev) (pageOffset st) = Some p) evidences)
           in if evidenceText = [] then d
              else d\<lparr>pages := (pages d)(p \<mapsto> map (highlightSpan lower evidenceText) spans)\<rparr>))"

text \<open>
  The effect on \<open>targetPage\<close>: with a truthy target and a loaded document, the target
  plus the offset is scrolled to when it lies in \<open>[1, numPages]\<close>.
\<close>

definition targetPageEffect :: "int option \<Rightarrow> viewer \<times> dom \<Rightarrow> viewer \<times> dom" where
  "targetPageEffect targetPage w =
     (case targetPage of
        None \<Rightarrow> w
      | Some t \<Rightarrow>
          if t \<noteq> 0 \<and> isLoaded (fst w)
          then (let actualPage = t + pageOffset (fst w) in
                if 1 \<le> actualPage \<and> actualPage \<le> toNumber (numPages (fst w))
                then scrollToPage actualPage w else w)
          else w)"


text \<open>
  Two reading aids for the proofs: whether some search text of the list makes a span
  text match, and the one class-list update a match performs.
\<close>

definition matches :: "string option list \<Rightarrow> string \<Rightarrow> bool" where
  "matches evidenceText spanText =
     list_ex (\<lambda>search. case search of None \<Rightarrow> False
                        | Some t \<Rightarrow> t \<noteq> [] \<and> includes_str t spanText) evidenceText"

definition addMark :: "span \<Rightarrow> span" where
  "addMark s = s\<lparr>classList := classListAdd highlightClasses (classList s)\<rparr>"

text \<open>The list \<^verbatim>\<open>evidenceText\<close> that \<^verbatim>\<open>tryHighlight\<close> computes for page \<open>p\<close>.\<close>

definition searchTexts ::
  "(string \<Rightarrow> string) \<Rightarrow> evidence_entry list \<Rightarrow> viewer \<Rightarrow> int \<Rightarrow> string option list" where
  "searchTexts lower evidences st p =
     map (\<lambda>ev. map_option lower (evidence ev))
       (filter (\<lambda>ev. jsPlus (pageNumber ev) (pageOffset st) = Some p) evidences)"


section \<open>Deep links and the effects of a render\<close>

text \<open>
  \<^verbatim>\<open>tryScrollToAnchor\<close> is a closure of one render: \<open>r\<close> is the viewer state of that
  render, from which it reads \<open>isLoaded\<close>, \<open>pageOffset\<close> and \<open>renderedPages\<close>; the hash is
  read from the window when it runs. \<^verbatim>\<open>hash.replace("#page-", "")\<close> removes the prefix
  just tested. A printed page that does not parse makes the lookup key \<^verbatim>\<open>NaN\<close>,
  which no page was recorded under.
\<close>

definition tryScrollToAnchor :: "viewer \<Rightarrow> string \<Rightarrow> viewer \<times> dom \<Rightarrow> viewer \<times> dom" where
  "tryScrollToAnchor r hash w =
     (if \<not> isLoaded r \<or> \<not> prefix ''#page-'' hash then w
      else case parseInt10 (drop 6 hash) of
        None \<Rightarrow> w
      | Some printedPage \<Rightarrow>
          (let actualPage = printedPage + pageOffset r in
           if map_of (renderedPages r) actualPage = Some True
           then scrollToPage actualPage w else w))"

text \<open>
  The mounted viewer with what surrounds it: its state, the document it renders
  into, \<^verbatim>\<open>window.location.hash\<close>, and the render whose \<^verbatim>\<open>tryScrollToAnchor\<close> is the
  registered \<^verbatim>\<open>hashchange\<close> listener.
\<close>

record world =
  view :: viewer
  page_dom :: dom
  location_hash :: string
  listener :: viewer

text \<open>
  The first effect runs \<^verbatim>\<open>tryScrollToAnchor\<close> of the current render and registers
  it as the listener; the second is the effect on \<open>targetPage\<close>.
\<close>

definition hashEffect :: "world \<Rightarrow> world" where
  "hashEffect w =
     (let r = view w;
          res = tryScrollToAnchor r (location_hash w) (r, page_dom w)
      in w\<lparr>view := fst res, page_dom := snd res, listener := r\<rparr>)"

definition navEffect :: "int option \<Rightarrow> world \<Rightarrow> world" where
  "navEffect targetPage w =
     (let res = targetPageEffect targetPage (view w, page_dom w)
      in w\<lparr>view := fst res, page_dom := snd res\<rparr>)"

text \<open>
  What a render puts into the document: the loaded \<^verbatim>\<open>Document\<close> has one element
  \<^verbatim>\<open>page_i\<close> for every \<open>i\<close> from 1 to \<open>numPages\<close>, and none before the page count is
  known. An element that is already there keeps its spans, a new one has none yet.
\<close>

definition renderPages :: "viewer \<Rightarrow> dom \<Rightarrow> dom" where
  "renderPages v d =
     d\<lparr>pages := (\<lambda>i. if 1 \<le> i \<and> i \<le> toNumber (numPages v)
                       then Some (case pages d i of None \<Rightarrow> [] | Some spans \<Rightarrow> spans)
                       else None)\<rparr>"

text \<open>
  The events that reach the mounted viewer from outside, and what one event does: the
  handler updates the state, the component renders again, and each effect runs when
  one of its dependencies differs from the previous render. \<^verbatim>\<open>[renderedPages, isLoaded]\<close>:
  \<^verbatim>\<open>onPageRenderSuccess\<close> always makes a new object, so the first effect runs after every
  page render, and after a document load when the value of \<open>isLoaded\<close> changed.
  \<^verbatim>\<open>[targetPage, isLoaded, numPages]\<close>: the prop \<open>targetPage\<close> is fixed here, so the second
  effect runs when the value of \<open>isLoaded\<close> or \<open>numPages\<close> changed. A hash change runs the
  registered listener.
\<close>

datatype event = DocumentLoad int | PageRender int | HashChange string

definition step :: "int option \<Rightarrow> event \<Rightarrow> world \<Rightarrow> world" where
  "step targetPage e w =
     (case e of
        DocumentLoad n \<Rightarrow>
          (let old = view w;
               new = onDocumentLoadSuccess n old;
               w0 = w\<lparr>view := new, page_dom := renderPages new (page_dom w)\<rparr>;
               w1 = (if isLoadedVal new \<noteq> isLoadedVal old then hashEffect w0 else w0)
           in if isLoadedVal new \<noteq> isLoadedVal old \<or> numPages new \<noteq> numPages old
              then navEffect targetPage w1 else w1)
      | PageRender p \<Rightarrow>
          (let old = view w;
               new = onPageRenderSuccess p old;
               w0 = w\<lparr>view := new\<rparr>;
               w1 = hashEffect w0
           in if isLoadedVal new \<noteq> isLoadedVal old then navEffect targetPage w1 else w1)
      | HashChange h \<Rightarrow>
          (let res = tryScrollToAnchor (listener w) h (view w, page_dom w)
           in w\<lparr>location_hash := h, view := fst res, page_dom := snd res\<rparr>))"

fun run :: "int option \<Rightarrow> event list \<Rightarrow> world \<Rightarrow> world" where
  "run targetPage [] w = w"
| "run targetPage (e # es) w = run targetPage es (step targetPage e w)"

text \<open>
  The events the renderer can send in a state: the document of a mounted viewer loads
  once, and a page reports its render only when its element, and so its \<^verbatim>\<open>Page\<close>, is
  there. A list of events is possible when each is, in the state its predecessors
  lead to.
\<close>

fun possible :: "event \<Rightarrow> world \<Rightarrow> bool" where
  "possible (DocumentLoad n) w = (numPages (view w) = None)"
| "possible (PageRender p) w = (pages (page_dom w) p \<noteq> None)"
| "possible (HashChange h) w = True"

fun possibleRun :: "int option \<Rightarrow> event list \<Rightarrow> world \<Rightarrow> bool" where
  "possibleRun targetPage [] w = True"
| "possibleRun targetPage (e # es) w =
     (possible e w \<and> possibleRun targetPage es (step targetPage e w))"

text \<open>The viewer is not ready now nor after any of the events of the list.\<close>

fun notReadyDuring :: "int option \<Rightarrow> event list \<Rightarrow> world \<Rightarrow> bool" where
  "notReadyDuring targetPage [] w = (\<not> isLoaded (view w))"
| "notReadyDuring targetPage (e # es) w =
     (\<not> isLoaded (view w) \<and> notReadyDuring targetPage es (step targetPage e w))"

text \<open>
  A viewer just mounted: no page element yet, and both effects have run on the initial
  state and done nothing.
\<close>

definition mountedWorld :: "string \<Rightarrow> world" where
  "mountedWorld h =
     \<lparr> view = initialViewer, page_dom = \<lparr>pages = Map.empty, scrolled = []\<rparr>,
       location_hash = h, listener = initialViewer \<rparr>"

text \<open>
  Reading aids for the proofs: the state with which the render after an event starts,
  two states that differ at most in \<open>currentPage\<close>, and what holds of the viewer and
  its document after every possible run from the mount. The listener is the closure
  of a render with the current value of \<open>isLoaded\<close>; the page elements are those of
  \<open>[1, numPages]\<close>; the recorded pages are distinct, recorded as \<^verbatim>\<open>true\<close>, and each has
  its element.
\<close>

definition updated :: "event \<Rightarrow> viewer \<Rightarrow> viewer" where
  "updated e v =
     (case e of
        DocumentLoad n \<Rightarrow> onDocumentLoadSuccess n v
      | PageRender p \<Rightarrow> onPageRenderSuccess p v
      | HashChange h \<Rightarrow> v)"

definition sameButCurrent :: "viewer \<Rightarrow> viewer \<Rightarrow> bool" where
  "sameButCurrent v v' = (v' = v\<lparr>currentPage := currentPage v'\<rparr>)"

definition consistent :: "world \<Rightarrow> bool" where
  "consistent w =
     (isLoadedVal (listener w) = isLoadedVal (view w)
      \<and> (\<forall>i. (pages (page_dom w) i \<noteq> None) = (1 \<le> i \<and> i \<le> toNumber (numPages (view w))))
      \<and> distinct (map fst (renderedPages (view w)))
      \<and> list_all snd (renderedPages (view w))
      \<and> list_all (\<lambda>k. pages (page_dom w) k \<noteq> None) (map fst (renderedPages (view w))))"

section \<open>The evaluation page and the document swap\<close>

text \<open>
  The \<^verbatim>\<open>useState\<close> cells of \<^verbatim>\<open>RunEvaluationPage\<close>, and with them the state of the
  \<^verbatim>\<open>AdvancedPDFViewer\<close> it renders under \<^verbatim>\<open>{pdfVisible && \<dots>}\<close>: \<open>None\<close> while the viewer
  is not mounted. The evaluation result is kept abstract. A file is identified with
  the object URL made for it.
\<close>

record 'r page_state =
  evaluationData :: "'r option"
  pdfBlobUrl :: "string option"
  pdfVisible :: bool
  error :: "string option"
  isLoading :: bool
  targetPage :: "int option"
  viewerInstance :: "viewer option"

text \<open>
  Rendering the page after a handler: a viewer that is to be shown and is not mounted
  is mounted with its initial state, a mounted one keeps its state, and a viewer that
  is not to be shown is unmounted and its state dropped.
\<close>

definition render :: "'r page_state \<Rightarrow> 'r page_state" where
  "render ps =
     ps\<lparr>viewerInstance :=
          (if pdfVisible ps
           then Some (case viewerInstance ps of None \<Rightarrow> initialViewer | Some v \<Rightarrow> v)
           else None)\<rparr>"

text \<open>
  \<^verbatim>\<open>handleEvaluate\<close> up to its \<^verbatim>\<open>await\<close>, and its continuation with the outcome of the
  evaluation: \<open>Inr\<close> the result, \<open>Inl\<close> the message of the error thrown.
\<close>

definition handleEvaluate :: "string option \<Rightarrow> 'r page_state \<Rightarrow> 'r page_state" where
  "handleEvaluate file ps =
     (case file of
        None \<Rightarrow> ps
      | Some blobUrl \<Rightarrow>
          render (ps\<lparr>isLoading := True, error := None, pdfBlobUrl := Some blobUrl,
                      pdfVisible := False\<rparr>))"

definition handleEvaluate_resume :: "string + 'r \<Rightarrow> 'r page_state \<Rightarrow> 'r page_state" where
  "handleEvaluate_resume outcome ps =
     render (case outcome of
               Inr result \<Rightarrow> ps\<lparr>evaluationData := Some result, isLoading := False\<rparr>
             | Inl message \<Rightarrow>
                 ps\<lparr>error := Some (if message = [] then ''Analysis failed. Please try again.''
                                      else message),
                     evaluationData := None, isLoading := False\<rparr>)"

text \<open>\<^verbatim>\<open>handleOpenPDF\<close>: the argument is a page number, or \<open>None\<close> for a missing one.\<close>

definition handleOpenPDF :: "int option \<Rightarrow> 'r page_state \<Rightarrow> 'r page_state" where
  "handleOpenPDF pageNum ps = render (ps\<lparr>targetPage := pageNum, pdfVisible := True\<rparr>)"


section \<open>Checks of the primitives\<close>

lemma parseInt10_examples:
  "parseInt10 ''42'' = Some 42"
  "parseInt10 '' -7x'' = Some (- 7)"
  "parseInt10 ''+3.5'' = Some 3"
  "parseInt10 ''abc'' = None"
  "parseInt10 '''' = None"
  "parseInt10 ''-'' = None"
  by (simp_all add: parseInt10_def isWhiteSpace_def isDigit_def digitsValue_def)

section \<open>Navigation: properties\<close>

lemma scrollToPage_anchor:
  "pages d a = Some el \<Longrightarrow>
   scrollToPage a (st, d) = (st\<lparr>currentPage := Some a\<rparr>, d\<lparr>scrolled := scrolled d @ [a]\<rparr>)"
  by (simp add: scrollToPage_def)

lemma scrollToPage_no_anchor: "pages (snd w) a = None \<Longrightarrow> scrollToPage a w = w"
  by (simp add: scrollToPage_def)

text \<open>
  C10. A navigation request to physical page \<open>a\<close> sets the current-page pointer to \<open>a\<close>
  (and issues the scroll request) exactly when the page has an anchor; with no
  anchor the viewer state and the scroll requests are what they were.
\<close>

theorem scrollToPage_atomic:
  "(pages d a \<noteq> None \<longrightarrow>
      scrollToPage a (st, d) = (st\<lparr>currentPage := Some a\<rparr>, d\<lparr>scrolled := scrolled d @ [a]\<rparr>))
   \<and> (pages d a = None \<longrightarrow> scrollToPage a (st, d) = (st, d))"
  by (auto simp: scrollToPage_def)

theorem scrollToPage_atomic_witness:
  "scrollToPage 3 (initialViewer, \<lparr>pages = [3 \<mapsto> []], scrolled = [1]\<rparr>)
     = (initialViewer\<lparr>currentPage := Some 3\<rparr>, \<lparr>pages = [3 \<mapsto> []], scrolled = [1, 3]\<rparr>)
   \<and> scrollToPage 4 (initialViewer\<lparr>currentPage := Some 2\<rparr>, \<lparr>pages = [3 \<mapsto> []], scrolled = [1]\<rparr>)
     = (initialViewer\<lparr>currentPage := Some 2\<rparr>, \<lparr>pages = [3 \<mapsto> []], scrolled = [1]\<rparr>)"
proof -
  have present: "pages \<lparr>pages = [3 \<mapsto> []], scrolled = [1]\<rparr> (3::int) \<noteq> None"
    by simp
  have absent: "pages \<lparr>pages = [3 \<mapsto> []], scrolled = [1]\<rparr> (4::int) = None"
    by simp
  from present absent
    scrollToPage_atomic [of "\<lparr>pages = [3 \<mapsto> []], scrolled = [1]\<rparr>" 3 initialViewer]
    scrollToPage_atomic [of "\<lparr>pages = [3 \<mapsto> []], scrolled = [1]\<rparr>" 4
      "initialViewer\<lparr>currentPage := Some 2\<rparr>"]
  show ?thesis by simp
qed

text \<open>
  C3. When the page-jump input does not parse, or the page it resolves to
  (\<open>parsed + offset\<close>) is below 1 or above the page count, \<^verbatim>\<open>handlePageJump\<close> returns the
  viewer state and the scroll requests unchanged. The function has no error result.
  With the page count still unknown every input is such a no-op.
\<close>

theorem handlePageJump_invalid_noop:
  assumes "parseInt10 (userPageInput st) = None \<or>
           (\<exists>t. parseInt10 (userPageInput st) = Some t \<and>
                (t + pageOffset st < 1 \<or>
                 (case numPages st of None \<Rightarrow> True | Some n \<Rightarrow> n < t + pageOffset st)))"
  shows "handlePageJump (st, d) = (st, d)"
  using assms
  by (auto simp: handlePageJump_def toNumber_def Let_def split: option.splits)

theorem handlePageJump_invalid_noop_witness:
  "handlePageJump (initialViewer\<lparr>numPages := Some 10, userPageInput := ''abc''\<rparr>,
                   \<lparr>pages = [1 \<mapsto> []], scrolled = []\<rparr>)
     = (initialViewer\<lparr>numPages := Some 10, userPageInput := ''abc''\<rparr>,
        \<lparr>pages = [1 \<mapsto> []], scrolled = []\<rparr>)
   \<and> handlePageJump (initialViewer\<lparr>numPages := Some 10, userPageInput := ''3'', pageOffset := 8\<rparr>,
                   \<lparr>pages = [11 \<mapsto> []], scrolled = []\<rparr>)
     = (initialViewer\<lparr>numPages := Some 10, userPageInput := ''3'', pageOffset := 8\<rparr>,
        \<lparr>pages = [11 \<mapsto> []], scrolled = []\<rparr>)"
proof -
  have p1: "parseInt10 ''abc'' = None"
    by (simp add: parseInt10_def isWhiteSpace_def isDigit_def)
  have p2: "parseInt10 ''3'' = Some 3"
    by (simp add: parseInt10_def isWhiteSpace_def isDigit_def digitsValue_def)
  show ?thesis
    using
      handlePageJump_invalid_noop [of "initialViewer\<lparr>numPages := Some 10, userPageInput := ''abc''\<rparr>"
        "\<lparr>pages = [1 \<mapsto> []], scrolled = []\<rparr>"]
      handlePageJump_invalid_noop
        [of "initialViewer\<lparr>numPages := Some 10, userPageInput := ''3'', pageOffset := 8\<rparr>"
          "\<lparr>pages = [11 \<mapsto> []], scrolled = []\<rparr>"]
      p1 p2
    by simp
qed

text \<open>
  C5. Saving the offset edit: a buffer that does not parse leaves the offset as it
  was, a buffer that parses commits the parsed integer; in both cases the control is
  back in display mode and nothing else of the state changes. The function has no
  error result.
\<close>

theorem handleOffsetSave_commit_or_discard:
  "(parseInt10 (offsetInput st) = None \<longrightarrow>
      handleOffsetSave st = st\<lparr>isEditingOffset := False\<rparr>)
   \<and> (\<forall>n. parseInt10 (offsetInput st) = Some n \<longrightarrow>
      handleOffsetSave st = st\<lparr>pageOffset := n, isEditingOffset := False\<rparr>)"
  by (simp add: handleOffsetSave_def)

theorem handleOffsetSave_commit_or_discard_witness:
  "handleOffsetSave (initialViewer\<lparr>pageOffset := 4, isEditingOffset := True, offsetInput := ''x1''\<rparr>)
     = initialViewer\<lparr>pageOffset := 4, isEditingOffset := False, offsetInput := ''x1''\<rparr>
   \<and> handleOffsetSave (initialViewer\<lparr>pageOffset := 4, isEditingOffset := True, offsetInput := ''-2''\<rparr>)
     = initialViewer\<lparr>pageOffset := - 2, isEditingOffset := False, offsetInput := ''-2''\<rparr>"
proof -
  have p1: "parseInt10 ''x1'' = None"
    by (simp add: parseInt10_def isWhiteSpace_def isDigit_def)
  have p2: "parseInt10 ''-2'' = Some (- 2)"
    by (simp add: parseInt10_def isWhiteSpace_def isDigit_def digitsValue_def)
  show ?thesis
    using
      handleOffsetSave_commit_or_discard
        [of "initialViewer\<lparr>pageOffset := 4, isEditingOffset := True, offsetInput := ''x1''\<rparr>"]
      handleOffsetSave_commit_or_discard
        [of "initialViewer\<lparr>pageOffset := 4, isEditingOffset := True, offsetInput := ''-2''\<rparr>"]
      p1 p2
    by (simp add: initialViewer_def)
qed

section \<open>Readiness: properties\<close>

lemma recordRendered_keys:
  "set (map fst (renderedPages (recordRendered ps st)))
     = set (map fst (renderedPages st)) \<union> set ps"
  unfolding recordRendered_def
  by (induction ps arbitrary: st) (auto simp: onPageRenderSuccess_def dom_update)

lemma recordRendered_distinct:
  "distinct (map fst (renderedPages st)) \<Longrightarrow>
   distinct (map fst (renderedPages (recordRendered ps st)))"
  unfolding recordRendered_def
  by (induction ps arbitrary: st) (auto simp: onPageRenderSuccess_def distinct_update)

lemma recordRendered_numPages: "numPages (recordRendered ps st) = numPages st"
  unfolding recordRendered_def
  by (induction ps arbitrary: st) (auto simp: onPageRenderSuccess_def)

lemma recordRendered_count:
  assumes "renderedPages st = []"
  shows "length (map fst (renderedPages (recordRendered ps st))) = card (set ps)"
proof -
  let ?keys = "map fst (renderedPages (recordRendered ps st))"
  have "distinct ?keys"
    using assms by (simp add: recordRendered_distinct)
  then have "length ?keys = card (set ?keys)"
    by (simp only: distinct_card)
  also have "\<dots> = card (set ps)"
    using assms by (simp only: recordRendered_keys) simp
  finally show ?thesis .
qed

lemma count_reaches_total_iff:
  fixes n :: int
  assumes "\<forall>i\<in>S. 1 \<le> i \<and> i \<le> n" "finite S"
  shows "n \<le> int (card S) \<longleftrightarrow> (\<forall>i. 1 \<le> i \<and> i \<le> n \<longrightarrow> i \<in> S)"
proof
  assume le: "n \<le> int (card S)"
  have sub: "S \<subseteq> {1..n}" using assms by auto
  have "card {1..n} = nat n" by simp
  with le have "card {1..n} \<le> card S" by linarith
  with sub have "S = {1..n}" by (simp add: card_seteq)
  then show "\<forall>i. 1 \<le> i \<and> i \<le> n \<longrightarrow> i \<in> S" by auto
next
  assume "\<forall>i. 1 \<le> i \<and> i \<le> n \<longrightarrow> i \<in> S"
  then have "{1..n} \<subseteq> S" by auto
  then have "card {1..n} \<le> card S" using assms(2) by (rule card_mono[rotated])
  then show "n \<le> int (card S)" by simp
qed

text \<open>
  C2, as the code has it. Start from an empty render map and record any pages of
  \<open>[1, n]\<close>, in any order and with repetitions. With the page count \<open>n\<close> known, the
  viewer is ready exactly when \<open>n\<close> is not 0 and every page of \<open>[1, n]\<close> was recorded;
  with the page count unknown it is not ready.
\<close>

theorem isLoaded_iff_all_recorded:
  assumes "\<forall>i\<in>set ps. 1 \<le> i \<and> i \<le> n"
  shows "(isLoaded (recordRendered ps (st\<lparr>numPages := Some n, renderedPages := []\<rparr>))
            \<longleftrightarrow> n \<noteq> 0 \<and> (\<forall>i. 1 \<le> i \<and> i \<le> n \<longrightarrow> i \<in> set ps))
         \<and> \<not> isLoaded (recordRendered ps (st\<lparr>numPages := None\<rparr>))"
  using count_reaches_total_iff [OF assms]
  by (simp add: isLoaded_def isLoadedVal_def recordRendered_numPages recordRendered_count
        del: length_map)

theorem isLoaded_iff_all_recorded_witness:
  "isLoaded (recordRendered [2, 1, 2, 3] (initialViewer\<lparr>numPages := Some 3, renderedPages := []\<rparr>))
   \<and> \<not> isLoaded (recordRendered [3, 1, 3] (initialViewer\<lparr>numPages := Some 3, renderedPages := []\<rparr>))"
proof -
  have in1: "\<forall>i\<in>set [2, 1, 2, 3 :: int]. 1 \<le> i \<and> i \<le> 3" by simp
  have in2: "\<forall>i\<in>set [3, 1, 3 :: int]. 1 \<le> i \<and> i \<le> 3" by simp
  have all1: "\<forall>i::int. 1 \<le> i \<and> i \<le> 3 \<longrightarrow> i \<in> set [2, 1, 2, 3]" by auto
  have miss2: "\<not> (\<forall>i::int. 1 \<le> i \<and> i \<le> 3 \<longrightarrow> i \<in> set [3, 1, 3])"
    by (auto intro: exI [of _ 2])
  from isLoaded_iff_all_recorded [OF in1, of initialViewer]
       isLoaded_iff_all_recorded [OF in2, of initialViewer] all1 miss2
  show ?thesis by simp
qed

text \<open>
  C2 as the claim words it fails for a document of 0 pages: the page count is known
  and no page of the empty range is missing, yet \<^verbatim>\<open>numPages && \<dots>\<close> is the falsy 0.
\<close>

theorem isLoaded_zero_pages_counterexample:
  "\<not> (isLoaded (recordRendered [] (initialViewer\<lparr>numPages := Some 0, renderedPages := []\<rparr>))
        \<longleftrightarrow> (\<forall>i::int. 1 \<le> i \<and> i \<le> 0 \<longrightarrow> i \<in> set []))"
  by (simp add: isLoaded_def isLoadedVal_def recordRendered_def)

section \<open>Evidence highlighting: properties\<close>

lemma includes_iff_sublist: "includes_str hay needle \<longleftrightarrow> sublist needle hay"
  by (induction hay) (auto simp: sublist_Cons_right)

lemma classListAdd_present: "set tokens \<subseteq> set cl \<Longrightarrow> classListAdd tokens cl = cl"
  unfolding classListAdd_def by (induction tokens arbitrary: cl) auto

lemma set_classListAdd: "set (classListAdd tokens cl) = set cl \<union> set tokens"
  unfolding classListAdd_def by (induction tokens arbitrary: cl) auto

lemma classListAdd_idem:
  "classListAdd tokens (classListAdd tokens cl) = classListAdd tokens cl"
  by (simp add: classListAdd_present set_classListAdd)

lemma distinct_classListAdd: "distinct cl \<Longrightarrow> distinct (classListAdd tokens cl)"
  unfolding classListAdd_def by (induction tokens arbitrary: cl) auto

lemma matches_iff:
  "matches E x \<longleftrightarrow> (\<exists>t. Some t \<in> set E \<and> t \<noteq> [] \<and> includes_str t x)"
  by (auto simp: matches_def list_ex_iff split: option.splits)

lemma addMark_idem: "addMark (addMark s) = addMark s"
  by (simp add: addMark_def classListAdd_idem)

lemma textContent_addMark: "textContent (addMark sp) = textContent sp"
  by (simp add: addMark_def)

lemma marked_addMark: "marked (addMark sp)"
  by (auto simp: marked_def addMark_def set_classListAdd list_all_iff)

text \<open>The loop over the search texts adds the classes once or not at all.\<close>

lemma fold_marks:
  "foldl (\<lambda>s search. case search of None \<Rightarrow> s | Some t \<Rightarrow>
            if t \<noteq> [] \<and> includes_str t x
            then s\<lparr>classList := classListAdd highlightClasses (classList s)\<rparr> else s) sp E
   = (if matches E x then addMark sp else sp)"
proof (induction E arbitrary: sp)
  case Nil
  then show ?case by (simp add: matches_def)
next
  case (Cons a E)
  show ?case
    by (cases a) (auto simp: Cons.IH matches_def addMark_def classListAdd_idem)
qed

lemma highlightSpan_eq:
  "highlightSpan lower E sp =
     (if lower (textContent sp) \<noteq> [] \<and> matches E (lower (textContent sp))
      then addMark sp else sp)"
  by (simp add: highlightSpan_def Let_def fold_marks)

lemma highlightSpan_text: "textContent (highlightSpan lower E sp) = textContent sp"
  by (simp add: highlightSpan_eq textContent_addMark)

lemma highlightSpan_idem: "highlightSpan lower E (highlightSpan lower E sp) = highlightSpan lower E sp"
  by (simp add: highlightSpan_eq addMark_idem textContent_addMark)

lemma map_highlightSpan_idem:
  "map (highlightSpan lower E) (map (highlightSpan lower E) spans) = map (highlightSpan lower E) spans"
  by (simp add: highlightSpan_idem)

lemma highlightSpan_distinct:
  "distinct (classList sp) \<Longrightarrow> distinct (classList (highlightSpan lower E sp))"
  by (simp add: highlightSpan_eq addMark_def distinct_classListAdd)

lemma marked_highlightSpan:
  "\<not> marked sp \<Longrightarrow> marked (highlightSpan lower E sp) \<longleftrightarrow>
     lower (textContent sp) \<noteq> [] \<and> matches E (lower (textContent sp))"
  by (simp add: highlightSpan_eq marked_addMark)

lemma matches_filtered:
  assumes "x \<noteq> []"
  shows "matches (map (\<lambda>ev. map_option lower (evidence ev)) (filter P evidences)) x
     \<longleftrightarrow> (\<exists>ev\<in>set evidences. P ev \<and>
            (\<exists>t. evidence ev = Some t \<and> sublist x (lower t)))"
    (is "?L \<longleftrightarrow> ?R")
proof
  assume ?L
  then obtain t ev where ev: "ev \<in> set evidences" "P ev"
      and t: "Some t = map_option lower (evidence ev)" "sublist x t"
    by (auto simp: matches_iff includes_iff_sublist)
  from t(1) obtain u where "evidence ev = Some u" "t = lower u"
    by (cases "evidence ev") auto
  with ev t(2) show ?R by blast
next
  assume ?R
  then obtain ev u where ev: "ev \<in> set evidences" "P ev"
      and u: "evidence ev = Some u" "sublist x (lower u)"
    by blast
  from u(2) assms have ne: "lower u \<noteq> []" by auto
  have "Some (lower u)
          \<in> set (map (\<lambda>ev. map_option lower (evidence ev)) (filter P evidences))"
    using ev u(1) by force
  with ne u(2) show ?L
    unfolding matches_iff includes_iff_sublist by blast
qed

lemma tryHighlight_eq:
  "tryHighlight lower tp evs st p d =
     (if tp \<noteq> Some p then d
      else case pages d p of
        None \<Rightarrow> d
      | Some spans \<Rightarrow>
          if searchTexts lower evs st p = [] then d
          else d\<lparr>pages := (pages d)(p \<mapsto> map (highlightSpan lower (searchTexts lower evs st p)) spans)\<rparr>)"
  by (simp add: tryHighlight_def searchTexts_def Let_def split: option.splits)

lemma searchTexts_append:
  "searchTexts lower (xs @ ys) st p = searchTexts lower xs st p @ searchTexts lower ys st p"
  by (simp add: searchTexts_def)

lemma searchTexts_Cons:
  "searchTexts lower (ev # ys) st p =
     (if jsPlus (pageNumber ev) (pageOffset st) = Some p
      then map_option lower (evidence ev) # searchTexts lower ys st p
      else searchTexts lower ys st p)"
  by (simp add: searchTexts_def)

lemma tryHighlight_not_target: "tp \<noteq> Some p \<Longrightarrow> tryHighlight lower tp evs st p d = d"
  by (simp add: tryHighlight_def)

lemma tryHighlight_other_pages:
  "q \<noteq> p \<Longrightarrow> pages (tryHighlight lower tp evs st p d) q = pages d q"
  by (simp add: tryHighlight_def Let_def split: option.splits)

text \<open>
  What the matcher does on the page that passes its guard, for every fold \<open>lower\<close>: a
  span that was not marked before is marked afterwards exactly when its folded text
  is not empty and is a substring of the folded text of some evidence entry whose
  page, after the offset, is this page. The evidence text is the hay, the span text
  the needle.
\<close>

lemma tryHighlight_marks_on_guard_page:
  assumes "pages d p = Some spans" and "i < length spans" and "\<not> marked (spans ! i)"
  shows "\<exists>spans'. pages (tryHighlight lower (Some p) evidences st p d) p = Some spans' \<and>
           length spans' = length spans \<and>
           textContent (spans' ! i) = textContent (spans ! i) \<and>
           (marked (spans' ! i) \<longleftrightarrow>
              lower (textContent (spans ! i)) \<noteq> [] \<and>
              (\<exists>ev\<in>set evidences.
                  jsPlus (pageNumber ev) (pageOffset st) = Some p \<and>
                  (\<exists>t. evidence ev = Some t \<and>
                       sublist (lower (textContent (spans ! i))) (lower t))))"
proof -
  let ?E = "map (\<lambda>ev. map_option lower (evidence ev))
                   (filter (\<lambda>ev. jsPlus (pageNumber ev) (pageOffset st) = Some p) evidences)"
  let ?x = "lower (textContent (spans ! i))"
  show ?thesis
  proof (cases "?E = []")
    case True
    then have "tryHighlight lower (Some p) evidences st p d = d"
      using assms(1) by (simp add: tryHighlight_def)
    moreover from True
    have "\<not> (\<exists>ev\<in>set evidences. jsPlus (pageNumber ev) (pageOffset st) = Some p)"
      by (auto simp: filter_empty_conv)
    ultimately show ?thesis using assms by auto
  next
    case False
    then have "pages (tryHighlight lower (Some p) evidences st p d) p
                 = Some (map (highlightSpan lower ?E) spans)"
      using assms(1) by (simp add: tryHighlight_def Let_def)
    moreover have "marked (highlightSpan lower ?E (spans ! i)) \<longleftrightarrow> ?x \<noteq> [] \<and> matches ?E ?x"
      using assms(3) by (rule marked_highlightSpan)
    ultimately show ?thesis using assms(2)
      by (cases "?x = []") (simp_all add: highlightSpan_text matches_filtered)
  qed
qed

text \<open>
  C7. Running \<^verbatim>\<open>tryHighlight\<close> again on its own result changes nothing, marking a span
  twice is marking it once, and a class list without repetitions stays so.
\<close>

theorem tryHighlight_idempotent:
  "tryHighlight lower tp evs st p (tryHighlight lower tp evs st p d)
     = tryHighlight lower tp evs st p d
   \<and> highlightSpan lower E (highlightSpan lower E sp) = highlightSpan lower E sp
   \<and> (distinct (classList sp) \<longrightarrow> distinct (classList (highlightSpan lower E sp)))"
proof -
  have "tryHighlight lower tp evs st p (tryHighlight lower tp evs st p d)
          = tryHighlight lower tp evs st p d"
    by (auto simp: tryHighlight_eq map_highlightSpan_idem simp del: map_map
             split: option.splits)
  then show ?thesis
    by (simp add: highlightSpan_idem highlightSpan_distinct)
qed

theorem tryHighlight_idempotent_witness:
  "tryHighlight toLowerCase_ascii (Some 5) [\<lparr>pageNumber = JNum 5, evidence = Some ''Alpha beta''\<rparr>] initialViewer 5
     (tryHighlight toLowerCase_ascii (Some 5) [\<lparr>pageNumber = JNum 5, evidence = Some ''Alpha beta''\<rparr>] initialViewer 5
        \<lparr>pages = [5 \<mapsto> [\<lparr>textContent = ''alpha'', classList = []\<rparr>]], scrolled = []\<rparr>)
     = \<lparr>pages = [5 \<mapsto> [\<lparr>textContent = ''alpha'',
                             classList = [''bg-yellow-500'', ''rounded-sm'', ''px-[1px]'', ''opacity-50'']\<rparr>]],
        scrolled = []\<rparr>
   \<and> distinct (classList (highlightSpan toLowerCase_ascii [Some ''alpha beta'', Some ''alpha'']
                   \<lparr>textContent = ''alpha'', classList = [''rounded-sm'']\<rparr>))"
proof -
  have lc: "toLowerCase_ascii ''Alpha beta'' = ''alpha beta''" "toLowerCase_ascii ''alpha'' = ''alpha''"
    by code_simp+
  have off: "pageOffset initialViewer = 0" by (simp add: initialViewer_def)
  have once: "tryHighlight toLowerCase_ascii (Some 5) [\<lparr>pageNumber = JNum 5, evidence = Some ''Alpha beta''\<rparr>] initialViewer 5
        \<lparr>pages = [5 \<mapsto> [\<lparr>textContent = ''alpha'', classList = []\<rparr>]], scrolled = []\<rparr>
     = \<lparr>pages = [5 \<mapsto> [\<lparr>textContent = ''alpha'',
                             classList = [''bg-yellow-500'', ''rounded-sm'', ''px-[1px]'', ''opacity-50'']\<rparr>]],
        scrolled = []\<rparr>"
    by (simp add: tryHighlight_def highlightSpan_def classListAdd_def highlightClasses_def
          off lc)
  have d: "distinct (classList \<lparr>textContent = ''alpha'', classList = [''rounded-sm'']\<rparr>)"
    by simp
  from tryHighlight_idempotent
         [of toLowerCase_ascii "Some 5"
             "[\<lparr>pageNumber = JNum 5, evidence = Some ''Alpha beta''\<rparr>]" initialViewer 5
             "\<lparr>pages = [5 \<mapsto> [\<lparr>textContent = ''alpha'', classList = []\<rparr>]], scrolled = []\<rparr>"
             "[Some ''alpha beta'', Some ''alpha'']"
             "\<lparr>textContent = ''alpha'', classList = [''rounded-sm'']\<rparr>"]
       once d
  show ?thesis by simp
qed

lemma highlightSpan_drop_missing:
  "highlightSpan lower (E1 @ None # E2) sp = highlightSpan lower (E1 @ E2) sp"
  by (simp add: highlightSpan_eq matches_iff)

lemma highlightSpan_only_missing: "highlightSpan lower [None] sp = sp"
  by (simp add: highlightSpan_eq matches_iff)

lemma map_highlightSpan_only_missing: "map (highlightSpan lower [None]) spans = spans"
  by (induction spans) (simp_all add: highlightSpan_only_missing)

text \<open>
  C9, as the code has it. An evidence entry whose page number is \<^verbatim>\<open>undefined\<close>, or
  whose text is \<^verbatim>\<open>undefined\<close> or \<^verbatim>\<open>null\<close>, changes nothing: \<^verbatim>\<open>tryHighlight\<close> gives the
  result it gives without the entry, for every target page, offset, page and fold.
  The function has no error result.
\<close>

theorem tryHighlight_malformed_excluded:
  assumes "pageNumber ev = JUndefined \<or> evidence ev = None"
  shows "tryHighlight lower tp (xs @ ev # ys) st p d = tryHighlight lower tp (xs @ ys) st p d"
proof (cases "jsPlus (pageNumber ev) (pageOffset st) = Some p")
  case False
  then have "searchTexts lower (xs @ ev # ys) st p = searchTexts lower (xs @ ys) st p"
    by (simp add: searchTexts_append searchTexts_Cons)
  then show ?thesis by (simp only: tryHighlight_eq)
next
  case True
  with assms have none: "evidence ev = None" by auto
  have split: "searchTexts lower (xs @ ev # ys) st p = searchTexts lower xs st p @ None # searchTexts lower ys st p"
    using True none by (simp add: searchTexts_append searchTexts_Cons)
  have hs: "highlightSpan lower (searchTexts lower (xs @ ev # ys) st p) = highlightSpan lower (searchTexts lower (xs @ ys) st p)"
    by (rule ext, simp only: split, simp only: searchTexts_append highlightSpan_drop_missing)
  show ?thesis
  proof (cases "searchTexts lower (xs @ ys) st p = []")
    case False
    then have "searchTexts lower (xs @ ev # ys) st p \<noteq> []"
      by (simp add: split)
    with False hs show ?thesis
      by (simp add: tryHighlight_eq split: option.splits)
  next
    case empty: True
    then have one: "searchTexts lower (xs @ ev # ys) st p = [None]"
      using split by (simp add: searchTexts_append)
    show ?thesis
      unfolding tryHighlight_eq one empty
      by (simp add: map_highlightSpan_only_missing map_upd_triv split: option.splits)
  qed
qed


theorem tryHighlight_malformed_excluded_witness:
  "tryHighlight toLowerCase_ascii (Some 5) [\<lparr>pageNumber = JUndefined, evidence = Some ''xyz''\<rparr>] initialViewer 5
      \<lparr>pages = [5 \<mapsto> [\<lparr>textContent = ''xyz'', classList = []\<rparr>]], scrolled = []\<rparr>
     = \<lparr>pages = [5 \<mapsto> [\<lparr>textContent = ''xyz'', classList = []\<rparr>]], scrolled = []\<rparr>
   \<and> tryHighlight toLowerCase_ascii (Some 5) [\<lparr>pageNumber = JNum 5, evidence = None\<rparr>] initialViewer 5
      \<lparr>pages = [5 \<mapsto> [\<lparr>textContent = ''xyz'', classList = []\<rparr>]], scrolled = []\<rparr>
     = \<lparr>pages = [5 \<mapsto> [\<lparr>textContent = ''xyz'', classList = []\<rparr>]], scrolled = []\<rparr>"
proof -
  have none: "tryHighlight toLowerCase_ascii (Some 5) [] initialViewer 5 d = d" for d
    by (simp add: tryHighlight_def split: option.splits)
  from tryHighlight_malformed_excluded
         [of "\<lparr>pageNumber = JUndefined, evidence = Some ''xyz''\<rparr>" toLowerCase_ascii "Some 5"
             "[]" "[]" initialViewer 5]
       tryHighlight_malformed_excluded
         [of "\<lparr>pageNumber = JNum 5, evidence = None\<rparr>" toLowerCase_ascii "Some 5"
             "[]" "[]" initialViewer 5]
  show ?thesis by (simp add: none)
qed

text \<open>
  C9 as the claim words it fails for a page number that is \<^verbatim>\<open>null\<close>: in
  \<^verbatim>\<open>ev.pageNumber + pageOffset\<close> it counts as 0, so with offset 5 the entry passes the
  filter of page 5 and its text is matched there; without the entry nothing is marked.
\<close>

theorem tryHighlight_null_page_counterexample:
  "pages (tryHighlight toLowerCase_ascii (Some 5) [\<lparr>pageNumber = JNull, evidence = Some ''xyz''\<rparr>]
            (initialViewer\<lparr>pageOffset := 5\<rparr>) 5
            \<lparr>pages = [5 \<mapsto> [\<lparr>textContent = ''xyz'', classList = []\<rparr>]], scrolled = []\<rparr>) 5
     = Some [\<lparr>textContent = ''xyz'',
               classList = [''bg-yellow-500'', ''rounded-sm'', ''px-[1px]'', ''opacity-50'']\<rparr>]
   \<and> pages (tryHighlight toLowerCase_ascii (Some 5) []
            (initialViewer\<lparr>pageOffset := 5\<rparr>) 5
            \<lparr>pages = [5 \<mapsto> [\<lparr>textContent = ''xyz'', classList = []\<rparr>]], scrolled = []\<rparr>) 5
     = Some [\<lparr>textContent = ''xyz'', classList = []\<rparr>]"
proof -
  have lc: "toLowerCase_ascii ''xyz'' = ''xyz''"
    by code_simp
  show ?thesis
    by (simp add: tryHighlight_def highlightSpan_def classListAdd_def highlightClasses_def lc)
qed

section \<open>Deep links: properties\<close>

lemma scrollToPage_view:
  "fst (scrollToPage a w) = fst w \<or> fst (scrollToPage a w) = (fst w)\<lparr>currentPage := Some a\<rparr>"
  by (simp add: scrollToPage_def split: option.splits)

lemma scrollToPage_pages: "pages (snd (scrollToPage a w)) = pages (snd w)"
  by (simp add: scrollToPage_def split: option.splits)

lemma isLoadedVal_currentPage: "isLoadedVal (v\<lparr>currentPage := c\<rparr>) = isLoadedVal v"
  by (simp add: isLoadedVal_def split: option.splits)

lemma sameButCurrent_iff: "sameButCurrent v v' \<longleftrightarrow> (\<exists>c. v' = v\<lparr>currentPage := c\<rparr>)"
  unfolding sameButCurrent_def by (metis viewer.select_convs(5) viewer.surjective viewer.update_convs(5))

lemma sameButCurrent_refl: "sameButCurrent v v"
  unfolding sameButCurrent_iff by (rule exI [of _ "currentPage v"]) simp

lemma sameButCurrent_trans: "sameButCurrent a b \<Longrightarrow> sameButCurrent b c \<Longrightarrow> sameButCurrent a c"
  unfolding sameButCurrent_iff by auto

lemma sameButCurrent_fields:
  assumes "sameButCurrent v v'"
  shows "isLoadedVal v' = isLoadedVal v" "numPages v' = numPages v" "pageOffset v' = pageOffset v"
    "renderedPages v' = renderedPages v" "isLoaded v' = isLoaded v"
  using assms by (auto simp: sameButCurrent_iff isLoadedVal_currentPage isLoaded_def)

lemma scrollToPage_same: "sameButCurrent (fst w) (fst (scrollToPage a w))"
  using scrollToPage_view [of a w] sameButCurrent_refl [of "fst w"]
  by (auto simp: sameButCurrent_iff)

lemma tryScrollToAnchor_same: "sameButCurrent (fst w) (fst (tryScrollToAnchor r h w))"
  by (simp add: tryScrollToAnchor_def Let_def scrollToPage_same sameButCurrent_refl
        split: option.splits)

lemma targetPageEffect_same: "sameButCurrent (fst w) (fst (targetPageEffect tp w))"
  by (simp add: targetPageEffect_def Let_def scrollToPage_same sameButCurrent_refl
        split: option.splits)

lemma tryScrollToAnchor_pages: "pages (snd (tryScrollToAnchor r h w)) = pages (snd w)"
  by (simp add: tryScrollToAnchor_def Let_def scrollToPage_pages split: option.splits)

lemma targetPageEffect_pages: "pages (snd (targetPageEffect tp w)) = pages (snd w)"
  by (simp add: targetPageEffect_def Let_def scrollToPage_pages split: option.splits)

lemma tryScrollToAnchor_not_ready: "\<not> isLoaded r \<Longrightarrow> tryScrollToAnchor r h w = w"
  by (simp add: tryScrollToAnchor_def)

lemma targetPageEffect_not_ready: "\<not> isLoaded (fst w) \<Longrightarrow> targetPageEffect tp w = w"
  by (simp add: targetPageEffect_def split: option.splits)

lemma hashEffect_not_ready:
  "\<not> isLoaded (view w) \<Longrightarrow> hashEffect w = w\<lparr>listener := view w\<rparr>"
  by (simp add: hashEffect_def Let_def tryScrollToAnchor_not_ready)

lemma navEffect_not_ready: "\<not> isLoaded (view w) \<Longrightarrow> navEffect tp w = w"
  by (simp add: navEffect_def Let_def targetPageEffect_not_ready)

lemma hashEffect_view: "sameButCurrent (view w) (view (hashEffect w))"
  using tryScrollToAnchor_same [of "(view w, page_dom w)" "view w" "location_hash w"]
  by (simp add: hashEffect_def Let_def)

lemma navEffect_view: "sameButCurrent (view w) (view (navEffect tp w))"
  using targetPageEffect_same [of "(view w, page_dom w)" tp]
  by (simp add: navEffect_def Let_def)

lemma hashEffect_listener: "listener (hashEffect w) = view w"
  by (simp add: hashEffect_def Let_def)

lemma navEffect_listener: "listener (navEffect tp w) = listener w"
  by (simp add: navEffect_def Let_def)

lemma hashEffect_hash: "location_hash (hashEffect w) = location_hash w"
  by (simp add: hashEffect_def Let_def)

lemma navEffect_hash: "location_hash (navEffect tp w) = location_hash w"
  by (simp add: navEffect_def Let_def)


lemma hashEffect_pages: "pages (page_dom (hashEffect w)) = pages (page_dom w)"
  using tryScrollToAnchor_pages [of "view w" "location_hash w" "(view w, page_dom w)"]
  by (simp add: hashEffect_def Let_def)

lemma navEffect_pages: "pages (page_dom (navEffect tp w)) = pages (page_dom w)"
  using targetPageEffect_pages [of tp "(view w, page_dom w)"]
  by (simp add: navEffect_def Let_def)

text \<open>The world in which the effects after an event run.\<close>

lemma step_eq:
  "step tp (DocumentLoad n) w =
     (let w0 = w\<lparr>view := onDocumentLoadSuccess n (view w),
                  page_dom := renderPages (onDocumentLoadSuccess n (view w)) (page_dom w)\<rparr>;
          c = (isLoadedVal (view w0) \<noteq> isLoadedVal (view w));
          w1 = (if c then hashEffect w0 else w0)
      in if c \<or> numPages (view w0) \<noteq> numPages (view w) then navEffect tp w1 else w1)"
  "step tp (PageRender p) w =
     (let w0 = w\<lparr>view := onPageRenderSuccess p (view w)\<rparr>
      in if isLoadedVal (view w0) \<noteq> isLoadedVal (view w)
         then navEffect tp (hashEffect w0) else hashEffect w0)"
  by (simp_all add: Let_def step_def)

lemma step_view: "sameButCurrent (updated e (view w)) (view (step tp e w))"
proof (cases e)
  case (DocumentLoad n)
  let ?w0 = "w\<lparr>view := onDocumentLoadSuccess n (view w),
                page_dom := renderPages (onDocumentLoadSuccess n (view w)) (page_dom w)\<rparr>"
  have a: "sameButCurrent (view ?w0) (view (hashEffect ?w0))" by (rule hashEffect_view)
  have b: "sameButCurrent (view (hashEffect ?w0)) (view (navEffect tp (hashEffect ?w0)))"
    by (rule navEffect_view)
  have c: "sameButCurrent (view ?w0) (view (navEffect tp ?w0))" by (rule navEffect_view)
  from a b c sameButCurrent_trans [OF a b] sameButCurrent_refl [of "view ?w0"]
  show ?thesis
    by (simp add: DocumentLoad updated_def step_eq Let_def)
next
  case (PageRender p)
  let ?w0 = "w\<lparr>view := onPageRenderSuccess p (view w)\<rparr>"
  have a: "sameButCurrent (view ?w0) (view (hashEffect ?w0))" by (rule hashEffect_view)
  have b: "sameButCurrent (view (hashEffect ?w0)) (view (navEffect tp (hashEffect ?w0)))"
    by (rule navEffect_view)
  from a sameButCurrent_trans [OF a b]
  show ?thesis
    by (simp add: PageRender updated_def step_eq Let_def)
next
  case (HashChange h)
  show ?thesis
    using tryScrollToAnchor_same [of "(view w, page_dom w)" "listener w" h]
    by (simp add: HashChange updated_def Let_def step_def)
qed

lemma step_pages:
  "pages (page_dom (step tp e w))
     = (case e of DocumentLoad n \<Rightarrow> pages (renderPages (onDocumentLoadSuccess n (view w)) (page_dom w))
        | _ \<Rightarrow> pages (page_dom w))"
proof (cases e)
  case (DocumentLoad n)
  then show ?thesis
    by (simp add: step_eq Let_def hashEffect_pages navEffect_pages)
next
  case (PageRender p)
  then show ?thesis
    by (simp add: step_eq Let_def hashEffect_pages navEffect_pages)
next
  case (HashChange h)
  then show ?thesis
    by (simp add: Let_def tryScrollToAnchor_pages step_def)
qed

lemma step_sync:
  assumes "isLoadedVal (listener w) = isLoadedVal (view w)"
  shows "isLoadedVal (listener (step tp e w)) = isLoadedVal (view (step tp e w))"
proof -
  have v: "isLoadedVal (view (step tp e w)) = isLoadedVal (updated e (view w))"
    using step_view [of e w tp] by (simp add: sameButCurrent_fields)
  show ?thesis
  proof (cases e)
    case (DocumentLoad n)
    then show ?thesis using assms v
      by (simp add: updated_def step_eq Let_def hashEffect_listener navEffect_listener)
  next
    case (PageRender p)
    then show ?thesis using assms v
      by (simp add: updated_def step_eq Let_def hashEffect_listener navEffect_listener)
  next
    case (HashChange h)
    then show ?thesis using assms v
      by (simp add: updated_def Let_def step_def)
  qed
qed

lemma updated_frame:
  "pageOffset (updated e v) = pageOffset v" "currentPage (updated e v) = currentPage v"
  by (cases e; simp add: updated_def onDocumentLoadSuccess_def onPageRenderSuccess_def)+

lemma scrolled_renderPages: "scrolled (renderPages v d) = scrolled d"
  by (simp add: renderPages_def)

text \<open>
  A step that leaves the viewer not ready makes no scroll request and changes nothing
  of the state but what the event's handler sets.
\<close>

lemma step_not_ready:
  assumes sync: "isLoadedVal (listener w) = isLoadedVal (view w)"
      and before: "\<not> isLoaded (view w)"
      and after: "\<not> isLoaded (view (step tp e w))"
  shows "scrolled (page_dom (step tp e w)) = scrolled (page_dom w)"
    and "view (step tp e w) = updated e (view w)"
proof -
  have upd: "\<not> isLoaded (updated e (view w))"
    using step_view [of e w tp] after by (simp add: sameButCurrent_fields)
  have lis: "\<not> isLoaded (listener w)"
    using sync before by (simp add: isLoaded_def)
  have "scrolled (page_dom (step tp e w)) = scrolled (page_dom w)
        \<and> view (step tp e w) = updated e (view w)"
  proof (cases e)
    case (DocumentLoad n)
    with upd have nr: "\<not> isLoaded (onDocumentLoadSuccess n (view w))" by (simp add: updated_def)
    show ?thesis
      by (simp add: DocumentLoad updated_def step_eq Let_def hashEffect_not_ready
            navEffect_not_ready nr scrolled_renderPages)
  next
    case (PageRender p)
    with upd have nr: "\<not> isLoaded (onPageRenderSuccess p (view w))" by (simp add: updated_def)
    show ?thesis
      by (simp add: PageRender updated_def step_eq Let_def hashEffect_not_ready
            navEffect_not_ready nr)
  next
    case (HashChange h)
    show ?thesis
      by (simp add: HashChange updated_def Let_def tryScrollToAnchor_not_ready lis step_def)
  qed
  then show "scrolled (page_dom (step tp e w)) = scrolled (page_dom w)"
    and "view (step tp e w) = updated e (view w)"
    by simp_all
qed

text \<open>Every possible event keeps the viewer and its document consistent.\<close>

lemma list_all_snd_update: "list_all snd al \<Longrightarrow> list_all snd (AList.update k True al)"
  by (induction al) auto

lemma keys_update: "set (map fst (AList.update k v al)) = insert k (set (map fst al))"
  using dom_update [of k v al] by simp

lemma step_consistent:
  assumes c: "consistent w" and p: "possible e w"
  shows "consistent (step tp e w)"
proof -
  let ?w' = "step tp e w"
  from c have sync: "isLoadedVal (listener w) = isLoadedVal (view w)"
    and anchors: "\<And>i. (pages (page_dom w) i \<noteq> None) = (1 \<le> i \<and> i \<le> toNumber (numPages (view w)))"
    and dist: "distinct (map fst (renderedPages (view w)))"
    and vals: "list_all snd (renderedPages (view w))"
    and keys: "list_all (\<lambda>k. pages (page_dom w) k \<noteq> None) (map fst (renderedPages (view w)))"
    unfolding consistent_def by blast+
  have same: "sameButCurrent (updated e (view w)) (view ?w')" by (rule step_view)
  have rp: "renderedPages (view ?w') = renderedPages (updated e (view w))"
    and np: "numPages (view ?w') = numPages (updated e (view w))"
    using same by (simp_all add: sameButCurrent_fields)
  have s1: "isLoadedVal (listener ?w') = isLoadedVal (view ?w')"
    by (rule step_sync [OF sync])
  show ?thesis
  proof (cases e)
    case (DocumentLoad n)
    with p have unknown: "numPages (view w) = None" by simp
    have "pages (page_dom w) i = None" for i
      using anchors [of i] unknown by (cases "pages (page_dom w) i") (auto simp: toNumber_def)
    with keys have empty: "renderedPages (view w) = []"
      by (cases "renderedPages (view w)") simp_all
    have pg: "pages (page_dom ?w') = pages (renderPages (onDocumentLoadSuccess n (view w)) (page_dom w))"
      using step_pages [of tp e w] by (simp add: DocumentLoad)
    show ?thesis
      unfolding consistent_def
      using s1 empty rp np pg
      by (simp add: DocumentLoad updated_def onDocumentLoadSuccess_def renderPages_def)
  next
    case (PageRender q)
    with p have anchor: "pages (page_dom w) q \<noteq> None" by simp
    have pg: "pages (page_dom ?w') = pages (page_dom w)"
      using step_pages [of tp e w] by (simp add: PageRender)
    have rp': "renderedPages (view ?w') = AList.update q True (renderedPages (view w))"
      using rp by (simp add: PageRender updated_def onPageRenderSuccess_def)
    have np': "numPages (view ?w') = numPages (view w)"
      using np by (simp add: PageRender updated_def onPageRenderSuccess_def)
    have k': "list_all (\<lambda>k. pages (page_dom w) k \<noteq> None)
                (map fst (AList.update q True (renderedPages (view w))))"
      using keys anchor by (simp add: list_all_iff keys_update del: set_map)
    show ?thesis
      unfolding consistent_def
      using s1 anchors dist vals k' rp' np' pg
      by (simp add: PageRender distinct_update list_all_snd_update)
  next
    case (HashChange h)
    have pg: "pages (page_dom ?w') = pages (page_dom w)"
      using step_pages [of tp e w] by (simp add: HashChange)
    have rp': "renderedPages (view ?w') = renderedPages (view w)"
      and np': "numPages (view ?w') = numPages (view w)"
      using rp np by (simp_all add: HashChange updated_def)
    show ?thesis
      unfolding consistent_def
      using s1 anchors dist vals keys rp' np' pg
      by (simp add: HashChange)
  qed
qed

lemma possibleRun_append:
  "possibleRun tp (es @ fs) w \<longleftrightarrow> possibleRun tp es w \<and> possibleRun tp fs (run tp es w)"
  by (induction es arbitrary: w) auto

lemma run_not_ready:
  assumes "consistent w" and "possibleRun tp es w" and "notReadyDuring tp es w"
  shows "scrolled (page_dom (run tp es w)) = scrolled (page_dom w) \<and>
         pageOffset (view (run tp es w)) = pageOffset (view w) \<and>
         currentPage (view (run tp es w)) = currentPage (view w) \<and>
         \<not> isLoaded (view (run tp es w)) \<and>
         consistent (run tp es w)"
  using assms
proof (induction es arbitrary: w)
  case Nil
  then show ?case by simp
next
  case (Cons e es)
  from Cons.prems have nr: "\<not> isLoaded (view w)" and rest: "notReadyDuring tp es (step tp e w)"
    and pe: "possible e w" and prest: "possibleRun tp es (step tp e w)"
    by simp_all
  from rest have nr': "\<not> isLoaded (view (step tp e w))" by (cases es) simp_all
  from Cons.prems(1) have sync: "isLoadedVal (listener w) = isLoadedVal (view w)"
    by (simp add: consistent_def)
  note st = step_not_ready [OF sync nr nr']
  from Cons.IH [OF step_consistent [OF Cons.prems(1) pe] prest rest] st
  show ?case by (simp add: updated_frame)
qed

text \<open>In a consistent, ready viewer every page of the document is recorded and has its element.\<close>

lemma ready_page_rendered:
  assumes c: "consistent w" and ready: "isLoaded (view w)"
      and range: "1 \<le> a" "a \<le> toNumber (numPages (view w))"
  shows "map_of (renderedPages (view w)) a = Some True" and "pages (page_dom w) a \<noteq> None"
proof -
  let ?rp = "renderedPages (view w)"
  from c have anchors: "\<And>i. (pages (page_dom w) i \<noteq> None) = (1 \<le> i \<and> i \<le> toNumber (numPages (view w)))"
    and dist: "distinct (map fst ?rp)"
    and vals: "list_all snd ?rp"
    and keys: "list_all (\<lambda>k. pages (page_dom w) k \<noteq> None) (map fst ?rp)"
    unfolding consistent_def by blast+
  from range anchors show "pages (page_dom w) a \<noteq> None" by simp
  from ready obtain N where N: "numPages (view w) = Some N" "N \<le> int (length (map fst ?rp))"
    by (auto simp: isLoaded_def isLoadedVal_def split: option.splits if_splits)
  have inr: "\<forall>i\<in>set (map fst ?rp). 1 \<le> i \<and> i \<le> N"
    using keys anchors N(1) by (simp add: list_all_iff toNumber_def del: set_map)
  have "length (map fst ?rp) = card (set (map fst ?rp))"
    using dist by (simp only: distinct_card)
  with N(2) have "N \<le> int (card (set (map fst ?rp)))" by simp
  with count_reaches_total_iff [OF inr] have "\<forall>i. 1 \<le> i \<and> i \<le> N \<longrightarrow> i \<in> set (map fst ?rp)"
    by simp
  with range N(1) have "a \<in> set (map fst ?rp)" by (simp add: toNumber_def)
  then obtain b where ab: "(a, b) \<in> set ?rp" by auto
  with vals have "b" by (auto simp: list_all_iff)
  with ab dist show "map_of ?rp a = Some True" by simp
qed

lemma scrollToPage_scrolled:
  "scrolled (snd (scrollToPage a w)) = scrolled (snd w) @ (if pages (snd w) a = None then [] else [a])"
  by (simp add: scrollToPage_def split: option.splits)

lemma targetPageEffect_scrolled:
  "\<exists>rest. scrolled (snd (targetPageEffect tp w)) = scrolled (snd w) @ rest \<and>
          set rest \<subseteq> (\<lambda>t. t + pageOffset (fst w)) ` set_option tp"
  by (cases tp) (simp_all add: targetPageEffect_def Let_def scrollToPage_scrolled)

lemma navEffect_scrolled:
  "\<exists>rest. scrolled (page_dom (navEffect tp w)) = scrolled (page_dom w) @ rest \<and>
          set rest \<subseteq> (\<lambda>t. t + pageOffset (view w)) ` set_option tp"
  using targetPageEffect_scrolled [of tp "(view w, page_dom w)"]
  by (simp add: navEffect_def Let_def)

lemma hashEffect_honours:
  assumes "isLoaded (view w)" and "location_hash w = ''#page-'' @ s" and "parseInt10 s = Some n"
      and "map_of (renderedPages (view w)) (n + pageOffset (view w)) = Some True"
      and "pages (page_dom w) (n + pageOffset (view w)) \<noteq> None"
  shows "scrolled (page_dom (hashEffect w)) = scrolled (page_dom w) @ [n + pageOffset (view w)]"
    and "view (hashEffect w) = (view w)\<lparr>currentPage := Some (n + pageOffset (view w))\<rparr>"
  using assms
  by (auto simp: hashEffect_def tryScrollToAnchor_def Let_def scrollToPage_def)

text \<open>The step that makes the viewer ready runs the first effect on the fragment in the window.\<close>

lemma step_becomes_ready:
  assumes before: "\<not> isLoaded (view w)"
      and after: "isLoaded (view (step tp e w))"
      and hash: "location_hash w = ''#page-'' @ s" "parseInt10 s = Some n"
      and rendered: "map_of (renderedPages (view (step tp e w))) (n + pageOffset (view w)) = Some True"
      and anchor: "pages (page_dom (step tp e w)) (n + pageOffset (view w)) \<noteq> None"
  shows "\<exists>rest. scrolled (page_dom (step tp e w))
                  = scrolled (page_dom w) @ (n + pageOffset (view w)) # rest \<and>
          set rest \<subseteq> (\<lambda>t. t + pageOffset (view w)) ` set_option tp"
proof -
  let ?new = "updated e (view w)"
  let ?d0 = "case e of DocumentLoad k \<Rightarrow> renderPages ?new (page_dom w) | _ \<Rightarrow> page_dom w"
  let ?w0 = "w\<lparr>view := ?new, page_dom := ?d0\<rparr>"
  have same: "sameButCurrent ?new (view (step tp e w))" by (rule step_view)
  then have new_ready: "isLoaded ?new" using after by (simp add: sameButCurrent_fields)
  have changed: "isLoadedVal ?new \<noteq> isLoadedVal (view w)"
    using new_ready before by (auto simp: isLoaded_def)
  have off: "pageOffset ?new = pageOffset (view w)" by (simp add: updated_frame)
  have rend: "map_of (renderedPages ?new) (n + pageOffset ?new) = Some True"
    using rendered same by (simp add: sameButCurrent_fields off)
  have pg: "pages ?d0 = pages (page_dom (step tp e w))"
    by (cases e) (simp_all add: step_pages updated_def)
  have sc: "scrolled ?d0 = scrolled (page_dom w)"
    by (cases e) (simp_all add: scrolled_renderPages)
  have w0: "isLoaded (view ?w0)" "location_hash ?w0 = ''#page-'' @ s"
    "map_of (renderedPages (view ?w0)) (n + pageOffset (view ?w0)) = Some True"
    "pages (page_dom ?w0) (n + pageOffset (view ?w0)) \<noteq> None"
    using new_ready hash rend anchor off by (simp_all add: pg)
  note h = hashEffect_honours [OF w0(1) w0(2) hash(2) w0(3) w0(4)]
  have stepeq: "step tp e w = navEffect tp (hashEffect ?w0)"
  proof (cases e)
    case (DocumentLoad k)
    then show ?thesis using changed by (simp add: updated_def step_eq Let_def)
  next
    case (PageRender p)
    then show ?thesis using changed by (simp add: updated_def step_eq Let_def)
  next
    case (HashChange x)
    then show ?thesis using changed by (simp add: updated_def)
  qed
  from navEffect_scrolled [of tp "hashEffect ?w0"] h off sc
  show ?thesis unfolding stepeq by auto
qed

lemma unloaded_consistent:
  assumes "numPages (view w) = None" "numPages (listener w) = None"
    "renderedPages (view w) = []" "pages (page_dom w) = Map.empty"
  shows "consistent w"
  using assms by (simp add: consistent_def isLoadedVal_def toNumber_def)

text \<open>
  C6. Take the viewer at any moment before its document has loaded, and let any
  possible events arrive while it stays not ready: document load, page renders,
  fragment changes. None of them navigates: no scroll request is made and the
  current page stays, so a fragment that arrives is kept nowhere but in the window.
  When the next event makes the viewer ready, the fragment in the window at that
  moment, \<open>#page-n\<close>, is scrolled to at \<open>n + offset\<close> if that page is in
  \<open>[1, numPages]\<close>; the only later request of that step is the one for the
  \<open>targetPage\<close> prop. No request is made for an earlier fragment.
\<close>

theorem deep_link_dropped_until_ready:
  assumes unloaded: "numPages (view w) = None" "numPages (listener w) = None"
                    "renderedPages (view w) = []" "pages (page_dom w) = Map.empty"
      and possible: "possibleRun tp (es @ [e]) w"
      and waiting: "notReadyDuring tp es w"
      and ready: "isLoaded (view (step tp e (run tp es w)))"
      and hash: "location_hash (run tp es w) = ''#page-'' @ s" "parseInt10 s = Some n"
      and range: "1 \<le> n + pageOffset (view w)"
                 "n + pageOffset (view w) \<le> toNumber (numPages (view (step tp e (run tp es w))))"
  shows "scrolled (page_dom (run tp es w)) = scrolled (page_dom w)
         \<and> currentPage (view (run tp es w)) = currentPage (view w)
         \<and> (\<exists>rest. scrolled (page_dom (step tp e (run tp es w)))
                      = scrolled (page_dom w) @ (n + pageOffset (view w)) # rest \<and>
                    set rest \<subseteq> (\<lambda>t. t + pageOffset (view w)) ` set_option tp)"
proof -
  let ?w1 = "run tp es w"
  let ?w2 = "step tp e ?w1"
  have c0: "consistent w" by (rule unloaded_consistent [OF unloaded])
  from possible have p1: "possibleRun tp es w" and p2: "possible e ?w1"
    by (simp_all add: possibleRun_append)
  note r = run_not_ready [OF c0 p1 waiting]
  from r have sc: "scrolled (page_dom ?w1) = scrolled (page_dom w)"
    and off: "pageOffset (view ?w1) = pageOffset (view w)"
    and cur: "currentPage (view ?w1) = currentPage (view w)"
    and nr: "\<not> isLoaded (view ?w1)"
    and c1: "consistent ?w1"
    by simp_all
  have c2: "consistent ?w2" by (rule step_consistent [OF c1 p2])
  note rr = ready_page_rendered [OF c2 ready range]
  have rendered': "map_of (renderedPages (view ?w2)) (n + pageOffset (view ?w1)) = Some True"
    using rr(1) by (simp add: off)
  have anchor': "pages (page_dom ?w2) (n + pageOffset (view ?w1)) \<noteq> None"
    using rr(2) by (simp add: off)
  have "\<exists>rest. scrolled (page_dom ?w2)
                  = scrolled (page_dom w) @ (n + pageOffset (view w)) # rest \<and>
               set rest \<subseteq> (\<lambda>t. t + pageOffset (view w)) ` set_option tp"
    using step_becomes_ready [OF nr ready hash rendered' anchor'] by (simp only: off sc)
  with sc cur show ?thesis by blast
qed


theorem deep_link_dropped_until_ready_witness:
  "scrolled (page_dom (run None [HashChange ''#page-1'', DocumentLoad 2, PageRender 2,
                                 HashChange ''#page-2''] (mountedWorld []))) = []
   \<and> scrolled (page_dom (step None (PageRender 1)
        (run None [HashChange ''#page-1'', DocumentLoad 2, PageRender 2, HashChange ''#page-2'']
           (mountedWorld [])))) = [2]"
proof -
  let ?w = "mountedWorld []"
  let ?es = "[HashChange ''#page-1'', DocumentLoad 2, PageRender 2, HashChange ''#page-2'']"
  let ?d = "\<lparr>pages = (\<lambda>i::int. if 1 \<le> i \<and> i \<le> 2 then Some [] else None), scrolled = []\<rparr>"
  let ?v2 = "initialViewer\<lparr>numPages := Some 2\<rparr>"
  let ?v3 = "initialViewer\<lparr>numPages := Some 2, renderedPages := [(2, True)]\<rparr>"
  let ?v5 = "initialViewer\<lparr>numPages := Some 2, renderedPages := [(2, True), (1, True)]\<rparr>"
  let ?w1 = "\<lparr>view = initialViewer, page_dom = \<lparr>pages = Map.empty, scrolled = []\<rparr>,
              location_hash = ''#page-1'', listener = initialViewer\<rparr>"
  let ?w2 = "\<lparr>view = ?v2, page_dom = ?d, location_hash = ''#page-1'', listener = ?v2\<rparr>"
  let ?w3 = "\<lparr>view = ?v3, page_dom = ?d, location_hash = ''#page-1'', listener = ?v3\<rparr>"
  let ?w4 = "\<lparr>view = ?v3, page_dom = ?d, location_hash = ''#page-2'', listener = ?v3\<rparr>"
  let ?w5 = "\<lparr>view = ?v5\<lparr>currentPage := Some 2\<rparr>, page_dom = ?d\<lparr>scrolled := [2]\<rparr>,
              location_hash = ''#page-2'', listener = ?v5\<rparr>"
  note world_eval =
    hashEffect_def navEffect_def tryScrollToAnchor_def targetPageEffect_def scrollToPage_def
    isLoaded_def isLoadedVal_def onDocumentLoadSuccess_def onPageRenderSuccess_def
    renderPages_def toNumber_def initialViewer_def step_def Let_def
  have parse: "parseInt10 ''2'' = Some 2"
    by (simp add: parseInt10_def isWhiteSpace_def isDigit_def digitsValue_def)
  have s1: "step None (HashChange ''#page-1'') ?w = ?w1"
    by (simp add: mountedWorld_def world_eval)
  have s2: "step None (DocumentLoad 2) ?w1 = ?w2"
    by (simp add: world_eval cong: if_cong)
  have s3: "step None (PageRender 2) ?w2 = ?w3"
    by (simp add: world_eval)
  have s4: "step None (HashChange ''#page-2'') ?w3 = ?w4"
    by (simp add: world_eval)
  have he: "hashEffect \<lparr>view = ?v5, page_dom = ?d, location_hash = ''#page-2'', listener = ?v3\<rparr>
              = ?w5"
    by (simp add: hashEffect_def tryScrollToAnchor_def isLoaded_def isLoadedVal_def parse
          scrollToPage_def initialViewer_def Let_def)
  have ne: "navEffect None x = x" for x
    by (simp add: navEffect_def targetPageEffect_def)
  have v5: "onPageRenderSuccess 1 ?v3 = ?v5"
    by (simp add: onPageRenderSuccess_def initialViewer_def)
  have lv: "isLoadedVal ?v3 = JBool False" "isLoadedVal ?v5 = JBool True"
    by (simp_all add: isLoadedVal_def initialViewer_def)
  have s5: "step None (PageRender 1) ?w4 = ?w5"
    by (simp add: step_eq v5 lv he ne)
  have r: "run None ?es ?w = ?w4"
    by (simp add: s1 s2 s3 s4)
  have unloaded: "numPages (view ?w) = None" "numPages (listener ?w) = None"
    "renderedPages (view ?w) = []" "pages (page_dom ?w) = Map.empty"
    by (simp_all add: mountedWorld_def initialViewer_def)
  have possible: "possibleRun None (?es @ [PageRender 1]) ?w"
    by (simp add: s1 s2 s3 s4 s5) (simp add: initialViewer_def)
  have waiting: "notReadyDuring None ?es ?w"
    by (simp add: s1 s2 s3 s4) (simp add: mountedWorld_def isLoaded_def isLoadedVal_def initialViewer_def)
  have ready: "isLoaded (view (step None (PageRender 1) (run None ?es ?w)))"
    unfolding r s5 by (simp add: isLoaded_def isLoadedVal_def initialViewer_def)
  have hash: "location_hash (run None ?es ?w) = ''#page-'' @ ''2''"
    unfolding r by simp
  have off: "pageOffset (view ?w) = 0"
    by (simp add: mountedWorld_def initialViewer_def)
  have range: "1 \<le> 2 + pageOffset (view ?w)"
    "2 + pageOffset (view ?w) \<le> toNumber (numPages (view (step None (PageRender 1) (run None ?es ?w))))"
    unfolding r s5 off by (simp_all add: toNumber_def initialViewer_def)
  have start: "scrolled (page_dom ?w) = []"
    by (simp add: mountedWorld_def)
  note concl = deep_link_dropped_until_ready [OF unloaded possible waiting ready hash parse range]
  from concl have quiet: "scrolled (page_dom (run None ?es ?w)) = []"
    by (simp only: start)
  from concl obtain rest
    where "scrolled (page_dom (step None (PageRender 1) (run None ?es ?w)))
             = scrolled (page_dom ?w) @ (2 + pageOffset (view ?w)) # rest"
      and "set rest \<subseteq> (\<lambda>t. t + pageOffset (view ?w)) ` set_option None"
    by blast
  then have "scrolled (page_dom (step None (PageRender 1) (run None ?es ?w))) = [2]"
    by (simp add: start off del: run.simps)
  with quiet show ?thesis by (simp only: simp_thms)
qed

section \<open>The document swap: properties\<close>

text \<open>
  C8, as the code has it. Supplying a new document hides the viewer, so the viewer is
  unmounted and its own state (page count, render map, offset, offset-edit mode,
  current page) is dropped; it stays unmounted while the evaluation settles, and the
  next open request mounts it with the initial state. The target page of the page
  component is not reset by the swap: it keeps its value until that open request
  replaces it, in the same step that shows the viewer again.
\<close>

theorem handleEvaluate_discards_viewer:
  "viewerInstance (handleEvaluate (Some f) ps) = None
   \<and> pdfBlobUrl (handleEvaluate (Some f) ps) = Some f
   \<and> targetPage (handleEvaluate (Some f) ps) = targetPage ps
   \<and> viewerInstance (handleEvaluate_resume outcome (handleEvaluate (Some f) ps)) = None
   \<and> targetPage (handleEvaluate_resume outcome (handleEvaluate (Some f) ps)) = targetPage ps
   \<and> viewerInstance (handleOpenPDF t (handleEvaluate_resume outcome (handleEvaluate (Some f) ps)))
       = Some initialViewer
   \<and> targetPage (handleOpenPDF t (handleEvaluate_resume outcome (handleEvaluate (Some f) ps))) = t
   \<and> viewerInstance (handleOpenPDF t (handleEvaluate (Some f) ps)) = Some initialViewer
   \<and> targetPage (handleOpenPDF t (handleEvaluate (Some f) ps)) = t"
  by (cases outcome) (simp_all add: handleEvaluate_def handleEvaluate_resume_def handleOpenPDF_def render_def)

text \<open>
  C8 as the claim words it fails: after the swap to another document the target page
  requested for the previous one is still there.
\<close>

theorem handleEvaluate_keeps_target_counterexample:
  "pdfBlobUrl (handleEvaluate (Some ''blob:b'')
      \<lparr>evaluationData = Some (), pdfBlobUrl = Some ''blob:a'', pdfVisible = True, error = None,
        isLoading = False, targetPage = Some 5,
        viewerInstance = Some (initialViewer\<lparr>numPages := Some 9, currentPage := Some 5\<rparr>)\<rparr>)
     = Some ''blob:b''
   \<and> targetPage (handleEvaluate (Some ''blob:b'')
      \<lparr>evaluationData = Some (), pdfBlobUrl = Some ''blob:a'', pdfVisible = True, error = None,
        isLoading = False, targetPage = Some 5,
        viewerInstance = Some (initialViewer\<lparr>numPages := Some 9, currentPage := Some 5\<rparr>)\<rparr>)
     = Some 5"
  by (simp add: handleEvaluate_def render_def)

section \<open>The highlighted page and the page navigated to\<close>

text \<open>
  C1. With an offset of 2 and the target page 5, the navigation effect scrolls to
  physical page 7, but the guard of \<^verbatim>\<open>tryHighlight\<close> compares the page with the target
  as given: on page 7 nothing is highlighted, and on page 5 the evidence of printed
  page 3 is, which resolves to physical page 5 and not to the page navigated to.
\<close>

theorem tryHighlight_guard_ignores_offset:
  "scrolled (snd (targetPageEffect (Some 5)
      (initialViewer\<lparr>numPages := Some 7, pageOffset := 2,
          renderedPages := [(1, True), (2, True), (3, True), (4, True), (5, True), (6, True), (7, True)]\<rparr>,
       \<lparr>pages = [5 \<mapsto> [\<lparr>textContent = ''alpha'', classList = []\<rparr>],
                 7 \<mapsto> [\<lparr>textContent = ''gamma'', classList = []\<rparr>]], scrolled = []\<rparr>))) = [7]
   \<and> tryHighlight toLowerCase_ascii (Some 5)
        [\<lparr>pageNumber = JNum 3, evidence = Some ''alpha beta''\<rparr>,
         \<lparr>pageNumber = JNum 5, evidence = Some ''gamma''\<rparr>]
        (initialViewer\<lparr>pageOffset := 2\<rparr>) 7
        \<lparr>pages = [5 \<mapsto> [\<lparr>textContent = ''alpha'', classList = []\<rparr>],
                  7 \<mapsto> [\<lparr>textContent = ''gamma'', classList = []\<rparr>]], scrolled = []\<rparr>
     = \<lparr>pages = [5 \<mapsto> [\<lparr>textContent = ''alpha'', classList = []\<rparr>],
                  7 \<mapsto> [\<lparr>textContent = ''gamma'', classList = []\<rparr>]], scrolled = []\<rparr>
   \<and> pages (tryHighlight toLowerCase_ascii (Some 5)
        [\<lparr>pageNumber = JNum 3, evidence = Some ''alpha beta''\<rparr>,
         \<lparr>pageNumber = JNum 5, evidence = Some ''gamma''\<rparr>]
        (initialViewer\<lparr>pageOffset := 2\<rparr>) 5
        \<lparr>pages = [5 \<mapsto> [\<lparr>textContent = ''alpha'', classList = []\<rparr>],
                  7 \<mapsto> [\<lparr>textContent = ''gamma'', classList = []\<rparr>]], scrolled = []\<rparr>) 5
     = Some [\<lparr>textContent = ''alpha'',
               classList = [''bg-yellow-500'', ''rounded-sm'', ''px-[1px]'', ''opacity-50'']\<rparr>]"
proof -
  have lc: "toLowerCase_ascii ''alpha beta'' = ''alpha beta''" "toLowerCase_ascii ''alpha'' = ''alpha''"
    by code_simp+
  have nav: "scrolled (snd (targetPageEffect (Some 5)
      (initialViewer\<lparr>numPages := Some 7, pageOffset := 2,
          renderedPages := [(1, True), (2, True), (3, True), (4, True), (5, True), (6, True), (7, True)]\<rparr>,
       \<lparr>pages = [5 \<mapsto> [\<lparr>textContent = ''alpha'', classList = []\<rparr>],
                 7 \<mapsto> [\<lparr>textContent = ''gamma'', classList = []\<rparr>]], scrolled = []\<rparr>))) = [7]"
    by (simp add: targetPageEffect_def isLoaded_def isLoadedVal_def toNumber_def scrollToPage_def
          initialViewer_def)
  have other: "tryHighlight toLowerCase_ascii (Some 5) evs st 7 d = d" for evs st d
    by (simp add: tryHighlight_def)
  have here: "pages (tryHighlight toLowerCase_ascii (Some 5)
        [\<lparr>pageNumber = JNum 3, evidence = Some ''alpha beta''\<rparr>,
         \<lparr>pageNumber = JNum 5, evidence = Some ''gamma''\<rparr>]
        (initialViewer\<lparr>pageOffset := 2\<rparr>) 5
        \<lparr>pages = [5 \<mapsto> [\<lparr>textContent = ''alpha'', classList = []\<rparr>],
                  7 \<mapsto> [\<lparr>textContent = ''gamma'', classList = []\<rparr>]], scrolled = []\<rparr>) 5
     = Some [\<lparr>textContent = ''alpha'',
               classList = [''bg-yellow-500'', ''rounded-sm'', ''px-[1px]'', ''opacity-50'']\<rparr>]"
    by (simp add: tryHighlight_def highlightSpan_def classListAdd_def highlightClasses_def lc)
  from nav other here show ?thesis by (simp only: simp_thms)
qed

text \<open>
  C4. With an offset of 2 and the target page 5, the page navigated to is physical
  page 7. Its fragment \<^verbatim>\<open>Quick Brown\<close> is not empty and, case folded, is a substring of
  the text of the one evidence entry, which the filter keeps for page 7; yet
  \<^verbatim>\<open>tryHighlight\<close> leaves the page as it was and the fragment unmarked, because the
  guard compares page 7 with the target as given.
\<close>

theorem tryHighlight_target_page_unmarked:
  "scrolled (snd (targetPageEffect (Some 5)
      (initialViewer\<lparr>numPages := Some 7, pageOffset := 2,
          renderedPages := [(1, True), (2, True), (3, True), (4, True), (5, True), (6, True), (7, True)]\<rparr>,
       \<lparr>pages = [7 \<mapsto> [\<lparr>textContent = ''Quick Brown'', classList = []\<rparr>,
                       \<lparr>textContent = ''xyz'', classList = []\<rparr>]], scrolled = []\<rparr>))) = [7]
   \<and> filter (\<lambda>ev. jsPlus (pageNumber ev) 2 = Some 7)
        [\<lparr>pageNumber = JNum 5, evidence = Some ''The quick brown fox''\<rparr>]
     = [\<lparr>pageNumber = JNum 5, evidence = Some ''The quick brown fox''\<rparr>]
   \<and> toLowerCase_ascii ''Quick Brown'' \<noteq> []
   \<and> sublist (toLowerCase_ascii ''Quick Brown'') (toLowerCase_ascii ''The quick brown fox'')
   \<and> tryHighlight toLowerCase_ascii (Some 5)
        [\<lparr>pageNumber = JNum 5, evidence = Some ''The quick brown fox''\<rparr>]
        (initialViewer\<lparr>pageOffset := 2\<rparr>) 7
        \<lparr>pages = [7 \<mapsto> [\<lparr>textContent = ''Quick Brown'', classList = []\<rparr>,
                        \<lparr>textContent = ''xyz'', classList = []\<rparr>]], scrolled = []\<rparr>
     = \<lparr>pages = [7 \<mapsto> [\<lparr>textContent = ''Quick Brown'', classList = []\<rparr>,
                        \<lparr>textContent = ''xyz'', classList = []\<rparr>]], scrolled = []\<rparr>
   \<and> \<not> marked \<lparr>textContent = ''Quick Brown'', classList = []\<rparr>"
proof -
  have lc: "toLowerCase_ascii ''Quick Brown'' = ''quick brown''"
    "toLowerCase_ascii ''The quick brown fox'' = ''the quick brown fox''"
    by code_simp+
  have nav: "scrolled (snd (targetPageEffect (Some 5)
      (initialViewer\<lparr>numPages := Some 7, pageOffset := 2,
          renderedPages := [(1, True), (2, True), (3, True), (4, True), (5, True), (6, True), (7, True)]\<rparr>,
       \<lparr>pages = [7 \<mapsto> [\<lparr>textContent = ''Quick Brown'', classList = []\<rparr>,
                       \<lparr>textContent = ''xyz'', classList = []\<rparr>]], scrolled = []\<rparr>))) = [7]"
    by (simp add: targetPageEffect_def isLoaded_def isLoadedVal_def toNumber_def scrollToPage_def
          initialViewer_def)
  have kept: "filter (\<lambda>ev. jsPlus (pageNumber ev) 2 = Some 7)
        [\<lparr>pageNumber = JNum 5, evidence = Some ''The quick brown fox''\<rparr>]
     = [\<lparr>pageNumber = JNum 5, evidence = Some ''The quick brown fox''\<rparr>]"
    by simp
  have sub: "sublist (toLowerCase_ascii ''Quick Brown'') (toLowerCase_ascii ''The quick brown fox'')"
    unfolding lc includes_iff_sublist [symmetric] by simp
  have ne: "toLowerCase_ascii ''Quick Brown'' \<noteq> []"
    unfolding lc by simp
  have same: "tryHighlight toLowerCase_ascii (Some 5) evs st 7 d = d" for evs st d
    by (simp add: tryHighlight_def)
  have unmarked: "\<not> marked \<lparr>textContent = ''Quick Brown'', classList = []\<rparr>"
    by (simp add: marked_def highlightClasses_def)
  from nav kept ne sub same unmarked show ?thesis by (simp only: simp_thms)
qed

end
